theory Spec2Isabelle
  imports Main
begin

section \<open>Text\<close>

text \<open>
  A Python \<open>str\<close> is a sequence of Unicode code points; \<open>len\<close>, slicing and the
  \<open>re\<close> module all count code points. A string of the program is therefore a list of
  code points, each a natural number. \<open>str\<close> reads an ASCII literal of this theory as
  such a string.
\<close>

type_synonym codepoint = nat
type_synonym pystr = "codepoint list"

definition str :: "string \<Rightarrow> pystr" where
  "str = map of_char"

text \<open>
  \<open>isspace\<close> is the whitespace of CPython (\<open>Py_UNICODE_ISSPACE\<close>): what
  \<open>str.strip()\<close> removes, what \<open>str.split()\<close> splits at, and what the pattern
  \<open>\s\<close> matches on text (so \<open>\S\<close> is its complement).
\<close>

definition isspace :: "codepoint \<Rightarrow> bool" where
  "isspace c \<longleftrightarrow>
     (9 \<le> c \<and> c \<le> 13) \<or> (28 \<le> c \<and> c \<le> 32) \<or> c = 133 \<or> c = 160 \<or> c = 5760 \<or>
     (8192 \<le> c \<and> c \<le> 8202) \<or> c = 8232 \<or> c = 8233 \<or> c = 8239 \<or> c = 8287 \<or> c = 12288"

text \<open>
  The decimal digits of Unicode 14.0 (general category Nd, as CPython 3.11 has them):
  what the pattern \<open>\d\<close> matches on text and what \<open>int()\<close> reads as a digit.
  Each range starts at a digit of value 0 and holds whole runs of ten.
\<close>

definition decimal_ranges :: "(codepoint \<times> codepoint) list" where
  "decimal_ranges =
    [(48, 57), (1632, 1641), (1776, 1785), (1984, 1993), (2406, 2415), (2534, 2543),
     (2662, 2671), (2790, 2799), (2918, 2927), (3046, 3055), (3174, 3183), (3302, 3311),
     (3430, 3439), (3558, 3567), (3664, 3673), (3792, 3801), (3872, 3881), (4160, 4169),
     (4240, 4249), (6112, 6121), (6160, 6169), (6470, 6479), (6608, 6617), (6784, 6793),
     (6800, 6809), (6992, 7001), (7088, 7097), (7232, 7241), (7248, 7257), (42528, 42537),
     (43216, 43225), (43264, 43273), (43472, 43481), (43504, 43513), (43600, 43609),
     (44016, 44025), (65296, 65305), (66720, 66729), (68912, 68921), (69734, 69743),
     (69872, 69881), (69942, 69951), (70096, 70105), (70384, 70393), (70736, 70745),
     (70864, 70873), (71248, 71257), (71360, 71369), (71472, 71481), (71904, 71913),
     (72016, 72025), (72784, 72793), (73040, 73049), (73120, 73129), (92768, 92777),
     (92864, 92873), (93008, 93017), (120782, 120831), (123200, 123209), (123632, 123641),
     (125264, 125273), (130032, 130041)]"

fun todecimal_in :: "(codepoint \<times> codepoint) list \<Rightarrow> codepoint \<Rightarrow> nat option" where
  "todecimal_in [] c = None"
| "todecimal_in ((lo, hi) # rs) c =
     (if lo \<le> c \<and> c \<le> hi then Some ((c - lo) mod 10) else todecimal_in rs c)"

definition todecimal :: "codepoint \<Rightarrow> nat option" where
  "todecimal c = todecimal_in decimal_ranges c"

definition isdecimal :: "codepoint \<Rightarrow> bool" where
  "isdecimal c \<longleftrightarrow> todecimal c \<noteq> None"

text \<open>No range of decimal digits starts below \<open>0\<close> or meets the whitespace.\<close>

definition clear_of_space :: "codepoint \<times> codepoint \<Rightarrow> bool" where
  "clear_of_space p \<longleftrightarrow>
     48 \<le> fst p \<and> (snd p < 133 \<or> 133 < fst p) \<and> (snd p < 160 \<or> 160 < fst p) \<and>
     (snd p < 5760 \<or> 5760 < fst p) \<and> (snd p < 8192 \<or> 8202 < fst p) \<and>
     (snd p < 8232 \<or> 8233 < fst p) \<and> (snd p < 8239 \<or> 8239 < fst p) \<and>
     (snd p < 8287 \<or> 8287 < fst p) \<and> (snd p < 12288 \<or> 12288 < fst p)"

text \<open>\<open>line.strip()\<close>: whitespace removed at both ends.\<close>

definition strip :: "pystr \<Rightarrow> pystr" where
  "strip s = rev (dropWhile isspace (rev (dropWhile isspace s)))"

section \<open>The pattern language of \<open>re\<close> that the parser uses\<close>

text \<open>
  The pattern of \<open>parse_log_line\<close> is a sequence of pieces of literal text and of capture
  groups, each group holding one class under one quantifier: \<open>(\S+)\<close> and \<open>(\d+)\<close>
  (greedy, one or more) and \<open>(.*?)\<close> (lazy, zero or more; \<open>.\<close> is any character but a
  newline).
\<close>

datatype cls = NonSpace | Digit | Dot

fun in_cls :: "cls \<Rightarrow> codepoint \<Rightarrow> bool" where
  "in_cls NonSpace c = (\<not> isspace c)"
| "in_cls Digit c = isdecimal c"
| "in_cls Dot c = (c \<noteq> 10)"

datatype quant = GreedyPlus | LazyStar

datatype item = Lit pystr | Grp quant cls

text \<open>
  The backtracking matcher of \<open>re\<close>. \<open>match_here items s\<close> matches the pattern at the
  start of \<open>s\<close> and returns the groups and the text left after the match, for the first
  way of matching that the matcher finds: a greedy group takes the longest run of its
  class and gives characters back one at a time (\<open>greedy\<close>) until the rest of the pattern
  matches, a lazy group takes nothing and takes one character more at a time (\<open>lazy\<close>).
\<close>

fun match_here :: "item list \<Rightarrow> pystr \<Rightarrow> (pystr list \<times> pystr) option"
  and greedy :: "item list \<Rightarrow> pystr \<Rightarrow> nat \<Rightarrow> (pystr list \<times> pystr) option"
  and lazy :: "item list \<Rightarrow> pystr \<Rightarrow> nat \<Rightarrow> nat \<Rightarrow> (pystr list \<times> pystr) option" where
  "match_here [] s = Some ([], s)"
| "match_here (Lit w # items) s =
     (if take (length w) s = w then match_here items (drop (length w) s) else None)"
| "match_here (Grp GreedyPlus c # items) s = greedy items s (length (takeWhile (in_cls c) s))"
| "match_here (Grp LazyStar c # items) s = lazy items s 0 (length (takeWhile (in_cls c) s))"
| "greedy items s 0 = None"
| "greedy items s (Suc k) =
     (case match_here items (drop (Suc k) s) of
        Some (gs, rest) \<Rightarrow> Some (take (Suc k) s # gs, rest)
      | None \<Rightarrow> greedy items s k)"
| "lazy items s k 0 =
     (case match_here items (drop k s) of
        Some (gs, rest) \<Rightarrow> Some (take k s # gs, rest)
      | None \<Rightarrow> None)"
| "lazy items s k (Suc n) =
     (case match_here items (drop k s) of
        Some (gs, rest) \<Rightarrow> Some (take k s # gs, rest)
      | None \<Rightarrow> lazy items s (Suc k) n)"

text \<open>
  The search of \<open>re\<close> in \<open>s\<close>, with \<open>pre\<close> the text already passed over: the leftmost
  position at which the pattern matches, and there the first match. It returns the text
  before the match, the groups and the text after the match.
\<close>

fun re_search :: "item list \<Rightarrow> pystr \<Rightarrow> pystr \<Rightarrow> (pystr \<times> pystr list \<times> pystr) option" where
  "re_search items pre [] =
     (case match_here items [] of
        Some (gs, rest) \<Rightarrow> Some (pre, gs, rest)
      | None \<Rightarrow> None)"
| "re_search items pre (c # cs) =
     (case match_here items (c # cs) of
        Some (gs, rest) \<Rightarrow> Some (pre, gs, rest)
      | None \<Rightarrow> re_search items (pre @ [c]) cs)"

text \<open>
  \<open>re.split(pattern, string)\<close>: the text before the first match, the groups of the
  match, and so on from the end of the match; the text after the last match comes last.
  A pattern that holds literal text, as the one below does, never matches the empty
  string, so every match shortens the text that is left; the last branch (an empty match,
  which \<open>re\<close> treats in a way of its own) is not reached for such a pattern.
\<close>

function re_split :: "item list \<Rightarrow> pystr \<Rightarrow> pystr list" where
  "re_split items s =
     (case re_search items [] s of
        None \<Rightarrow> [s]
      | Some (pre, gs, rest) \<Rightarrow>
          if length rest < length s then pre # gs @ re_split items rest
          else pre # gs @ [rest])"
  by pat_completeness auto
termination
  by (relation "measure (\<lambda>(items, s). length s)") auto

text \<open>The pattern of line 30 of the source.\<close>

definition log_pattern :: "item list" where
  \<open>log_pattern =
     [Grp GreedyPlus NonSpace, Lit (str '' ''), Grp GreedyPlus NonSpace, Lit (str '' ''),
      Grp GreedyPlus NonSpace, Lit (str '' [''), Grp LazyStar Dot, Lit (str ''] "''),
      Grp LazyStar Dot, Lit (str ''" ''), Grp GreedyPlus Digit, Lit (str '' ''),
      Grp GreedyPlus Digit, Lit (str '' "''), Grp LazyStar Dot, Lit (str ''" "''),
      Grp LazyStar Dot, Lit (str ''" ''), Grp GreedyPlus Digit]\<close>

section \<open>The line parser\<close>

datatype py_error = ValueError | IndexError | UnicodeDecodeError

text \<open>
  \<open>int(x)\<close> of a string, base ten. Whitespace is removed at both ends; for \<open>int()\<close>
  that is the whitespace of \<open>str.isspace\<close> but for the four separators U+001C to
  U+001F, which it leaves in place. An optional sign is followed by decimal digits,
  between any two of which one underscore may stand. CPython converts at most
  \<open>max_str_digits\<close> digits (4300 unless \<open>sys.set_int_max_str_digits\<close> says otherwise;
  leading zeros count, underscores and the sign do not). Anything else raises
  \<open>ValueError\<close>.
\<close>

definition int_space :: "codepoint \<Rightarrow> bool" where
  "int_space c \<longleftrightarrow> isspace c \<and> \<not> (28 \<le> c \<and> c \<le> 31)"

definition int_strip :: "pystr \<Rightarrow> pystr" where
  "int_strip s = rev (dropWhile int_space (rev (dropWhile int_space s)))"

definition max_str_digits :: nat where
  "max_str_digits = 4300"

fun int_digits :: "nat \<Rightarrow> pystr \<Rightarrow> nat option" where
  "int_digits acc [] = Some acc"
| "int_digits acc (c # cs) =
     (case todecimal c of
        Some d \<Rightarrow> int_digits (10 * acc + d) cs
      | None \<Rightarrow>
          (if c = 95 then
             (case cs of
                [] \<Rightarrow> None
              | c' # _ \<Rightarrow> (if isdecimal c' then int_digits acc cs else None))
           else None))"

definition int_unsigned :: "pystr \<Rightarrow> nat option" where
  "int_unsigned s =
     (case s of
        [] \<Rightarrow> None
      | c # cs \<Rightarrow>
          (case todecimal c of
             None \<Rightarrow> None
           | Some d \<Rightarrow>
               (case int_digits d cs of
                  None \<Rightarrow> None
                | Some v \<Rightarrow>
                    if max_str_digits < length (filter isdecimal s) then None else Some v)))"

definition int_signed :: "pystr \<Rightarrow> int option" where
  "int_signed s =
     (case s of
        [] \<Rightarrow> None
      | c # cs \<Rightarrow>
          if c = 45 then map_option (\<lambda>n. - int n) (int_unsigned cs)
          else if c = 43 then map_option int (int_unsigned cs)
          else map_option int (int_unsigned s))"

definition py_int :: "pystr \<Rightarrow> py_error + int" where
  "py_int s = (case int_signed (int_strip s) of None \<Rightarrow> Inl ValueError | Some n \<Rightarrow> Inr n)"

text \<open>\<open>xs[i]\<close> for an index that is not negative: \<open>IndexError\<close> past the end.\<close>

definition subscript :: "'a list \<Rightarrow> nat \<Rightarrow> py_error + 'a" where
  "subscript xs i = (if i < length xs then Inr (xs ! i) else Inl IndexError)"

text \<open>The dictionary that \<open>parse_log_line\<close> returns (lines 56 to 62).\<close>

record log_entry =
  ip :: pystr
  timestamp :: pystr
  request :: pystr
  status :: int
  user_agent :: pystr

text \<open>
  What the program prints, one constructor for each \<open>print\<close> of the source; the numbers
  and tables a message shows are its arguments.
\<close>

datatype message =
    Skipping_malformed pystr py_error
  | Analyzing
  | File_not_found
  | Processing_report nat nat int
  | No_valid_entries
  | Echo nat pystr
  | Traffic nat nat
  | Top_ips "(pystr \<times> nat) list"
  | Bot_traffic
  | Methods "pystr \<rightharpoonup> nat"
  | Paths "pystr \<rightharpoonup> nat"
  | Statuses "int \<rightharpoonup> nat"
  | Dropped nat
  | Saved_chart "(int \<times> nat) list"
  | Busiest_minute int nat
  | No_valid_timestamps
  | Could_not_generate

text \<open>
  Lines 46 to 50: the five fields read from the parts of the split line. Each subscript
  and the conversion of the status may raise.
\<close>

definition extract_fields :: "pystr list \<Rightarrow> py_error + (pystr \<times> pystr \<times> pystr \<times> int \<times> pystr)" where
  "extract_fields parts =
     (case subscript parts 1 of Inl e \<Rightarrow> Inl e | Inr ip' \<Rightarrow>
      case subscript parts 4 of Inl e \<Rightarrow> Inl e | Inr timestamp' \<Rightarrow>
      case subscript parts 5 of Inl e \<Rightarrow> Inl e | Inr request' \<Rightarrow>
      case subscript parts 6 of Inl e \<Rightarrow> Inl e | Inr status_text \<Rightarrow>
      case py_int status_text of Inl e \<Rightarrow> Inl e | Inr status' \<Rightarrow>
      case subscript parts 9 of Inl e \<Rightarrow> Inl e | Inr user_agent' \<Rightarrow>
        Inr (ip', timestamp', request', status', user_agent'))"

text \<open>
  \<open>parse_log_line\<close> (lines 16 to 65) returns what it prints and the entry, or \<open>None\<close>.
  An exception raised in the \<open>try\<close> block is caught at line 63: the diagnostic, with
  the first 100 characters of the stripped line, is printed and \<open>None\<close> is returned.
\<close>

definition parse_log_line :: "pystr \<Rightarrow> message list \<times> log_entry option" where
  "parse_log_line raw =
     (let line = strip raw in
      if line = [] then ([], None)
      else
        let parts = re_split log_pattern line in
        if length parts < 11 then ([], None)
        else
          (case extract_fields parts of
             Inl e \<Rightarrow> ([Skipping_malformed (take 100 line) e], None)
           | Inr (ip', timestamp', request', status', user_agent') \<Rightarrow>
               if timestamp' = str ''-'' then ([], None)
               else ([], Some \<lparr>ip = ip', timestamp = timestamp', request = request',
                                status = status', user_agent = user_agent'\<rparr>)))"

section \<open>The log grammar, read as a description of text\<close>

text \<open>
  \<open>fits items gs w\<close>: the text \<open>w\<close> is, piece by piece, what the pattern describes, the
  groups being \<open>gs\<close>: literal text stands as it is, a group is a run of characters of
  its class, not empty under \<open>+\<close>. This says nothing of the order in which a matcher
  looks for such a reading.
\<close>

fun fits :: "item list \<Rightarrow> pystr list \<Rightarrow> pystr \<Rightarrow> bool" where
  "fits [] gs w \<longleftrightarrow> gs = [] \<and> w = []"
| "fits (Lit v # items) gs w \<longleftrightarrow> take (length v) w = v \<and> fits items gs (drop (length v) w)"
| "fits (Grp q c # items) [] w \<longleftrightarrow> False"
| "fits (Grp q c # items) (g # gs) w \<longleftrightarrow>
     take (length g) w = g \<and> list_all (in_cls c) g \<and> (q = LazyStar \<or> g \<noteq> []) \<and>
     fits items gs (drop (length g) w)"

text \<open>
  The same for the pattern of the parser, written out: three tokens, the bracketed
  timestamp, the quoted request, two numbers, the quoted referrer and user agent, a
  number.
\<close>

definition token :: "pystr \<Rightarrow> bool" where
  "token w \<longleftrightarrow> w \<noteq> [] \<and> list_all (\<lambda>c. \<not> isspace c) w"

definition number :: "pystr \<Rightarrow> bool" where
  "number w \<longleftrightarrow> w \<noteq> [] \<and> list_all isdecimal w"

definition free_text :: "pystr \<Rightarrow> bool" where
  "free_text w \<longleftrightarrow> list_all (\<lambda>c. c \<noteq> 10) w"

definition log_groups :: "pystr list \<Rightarrow> bool" where
  "log_groups gs \<longleftrightarrow>
     length gs = 10 \<and> token (gs ! 0) \<and> token (gs ! 1) \<and> token (gs ! 2) \<and>
     free_text (gs ! 3) \<and> free_text (gs ! 4) \<and> number (gs ! 5) \<and> number (gs ! 6) \<and>
     free_text (gs ! 7) \<and> free_text (gs ! 8) \<and> number (gs ! 9)"

definition log_text :: "pystr list \<Rightarrow> pystr" where
  \<open>log_text gs =
     gs ! 0 @ str '' '' @ gs ! 1 @ str '' '' @ gs ! 2 @ str '' ['' @ gs ! 3 @ str ''] "'' @
     gs ! 4 @ str ''" '' @ gs ! 5 @ str '' '' @ gs ! 6 @ str '' "'' @ gs ! 7 @ str ''" "'' @
     gs ! 8 @ str ''" '' @ gs ! 9\<close>

text \<open>The number that a run of decimal digits writes.\<close>

definition digit :: "codepoint \<Rightarrow> nat" where
  "digit c = (case todecimal c of Some d \<Rightarrow> d | None \<Rightarrow> 0)"

definition decimal_value :: "pystr \<Rightarrow> nat" where
  "decimal_value s = foldl (\<lambda>a c. 10 * a + digit c) 0 s"

text \<open>
  A text holds a line of the grammar when some part of it, with any text before and
  after, is one; it is a line of the grammar when all of it is.
\<close>

definition contains_log_line :: "pystr \<Rightarrow> bool" where
  "contains_log_line s \<longleftrightarrow> (\<exists>pre gs rest. log_groups gs \<and> s = pre @ log_text gs @ rest)"

definition is_log_line :: "pystr \<Rightarrow> bool" where
  "is_log_line s \<longleftrightarrow> (\<exists>gs. log_groups gs \<and> s = log_text gs)"



section \<open>The aggregator\<close>















declare re_split.simps [simp del]

section \<open>The matcher finds a reading of the pattern whenever there is one\<close>

lemma greedy_SomeD:
  "greedy items s k = Some (gs, rest) \<Longrightarrow>
     \<exists>j gs'. 1 \<le> j \<and> j \<le> k \<and> gs = take j s # gs' \<and> match_here items (drop j s) = Some (gs', rest)"
proof (induction k)
  case 0
  then show ?case by simp
next
  case (Suc k)
  show ?case
  proof (cases "match_here items (drop (Suc k) s)")
    case None
    with Suc.prems have "greedy items s k = Some (gs, rest)" by simp
    from Suc.IH [OF this] obtain j gs' where "1 \<le> j" "j \<le> k" "gs = take j s # gs'"
      "match_here items (drop j s) = Some (gs', rest)" by blast
    then show ?thesis by (intro exI [of _ j] exI [of _ gs']) simp
  next
    case (Some m)
    with Suc.prems show ?thesis
      by (cases m) (auto intro!: exI [of _ "Suc k"])
  qed
qed

lemma greedy_complete:
  "1 \<le> j \<Longrightarrow> j \<le> k \<Longrightarrow> match_here items (drop j s) \<noteq> None \<Longrightarrow> greedy items s k \<noteq> None"
proof (induction k)
  case 0
  then show ?case by simp
next
  case (Suc k)
  show ?case
  proof (cases "match_here items (drop (Suc k) s)")
    case None
    with Suc.prems have "j \<le> k" by (cases "j = Suc k") auto
    with Suc None show ?thesis by simp
  next
    case (Some m)
    then show ?thesis by (cases m) simp
  qed
qed

lemma lazy_SomeD:
  "lazy items s k n = Some (gs, rest) \<Longrightarrow>
     \<exists>j gs'. k \<le> j \<and> j \<le> k + n \<and> gs = take j s # gs' \<and> match_here items (drop j s) = Some (gs', rest)"
proof (induction n arbitrary: k)
  case 0
  then show ?case by (auto split: option.splits)
next
  case (Suc n)
  show ?case
  proof (cases "match_here items (drop k s)")
    case None
    with Suc.prems have "lazy items s (Suc k) n = Some (gs, rest)" by simp
    from Suc.IH [OF this] obtain j gs' where "Suc k \<le> j" "j \<le> Suc k + n" "gs = take j s # gs'"
      "match_here items (drop j s) = Some (gs', rest)" by blast
    then show ?thesis by (intro exI [of _ j] exI [of _ gs']) simp
  next
    case (Some m)
    with Suc.prems show ?thesis
      by (cases m) (auto intro!: exI [of _ k])
  qed
qed

lemma lazy_complete:
  "k \<le> j \<Longrightarrow> j \<le> k + n \<Longrightarrow> match_here items (drop j s) \<noteq> None \<Longrightarrow> lazy items s k n \<noteq> None"
proof (induction n arbitrary: k)
  case 0
  then show ?case by (auto split: option.splits)
next
  case (Suc n)
  show ?case
  proof (cases "match_here items (drop k s)")
    case None
    with Suc.prems have "Suc k \<le> j" by (cases "j = k") auto
    with Suc None show ?thesis by simp
  next
    case (Some m)
    then show ?thesis by (cases m) simp
  qed
qed

lemma takeWhile_run:
  "j \<le> length (takeWhile P s) \<Longrightarrow> list_all P (take j s) \<and> length (take j s) = j"
proof (induction s arbitrary: j)
  case Nil
  then show ?case by simp
next
  case (Cons x xs)
  then show ?case
    by (cases j) (auto split: if_splits)
qed

lemma run_takeWhile:
  "list_all P g \<Longrightarrow> length g \<le> length (takeWhile P (g @ x))"
  by (induction g) auto

lemma take_eq_self_iff: "take (length g) w = g \<longleftrightarrow> (\<exists>w'. w = g @ w')"
proof
  assume "take (length g) w = g"
  then have "w = g @ drop (length g) w"
    using append_take_drop_id [of "length g" w] by simp
  then show "\<exists>w'. w = g @ w'" ..
next
  assume "\<exists>w'. w = g @ w'"
  then show "take (length g) w = g" by auto
qed

lemma match_sound:
  "match_here items s = Some (gs, rest) \<Longrightarrow> \<exists>w. s = w @ rest \<and> fits items gs w"
proof (induction items arbitrary: s gs rest)
  case Nil
  then show ?case by simp
next
  case (Cons i items)
  show ?case
  proof (cases i)
    case (Lit v)
    with Cons.prems have v: "take (length v) s = v"
      and m: "match_here items (drop (length v) s) = Some (gs, rest)"
      by (auto split: if_splits)
    from Cons.IH [OF m] obtain w where w: "drop (length v) s = w @ rest" "fits items gs w"
      by blast
    from v w have "s = (v @ w) @ rest"
      using append_take_drop_id [of "length v" s] by simp
    moreover from w have "fits (i # items) gs (v @ w)"
      by (simp add: Lit)
    ultimately show ?thesis by blast
  next
    case (Grp q c)
    let ?n = "length (takeWhile (in_cls c) s)"
    have "\<exists>j gs'. j \<le> ?n \<and> (q = LazyStar \<or> 1 \<le> j) \<and> gs = take j s # gs' \<and>
            match_here items (drop j s) = Some (gs', rest)"
    proof (cases q)
      case GreedyPlus
      with Cons.prems Grp have "greedy items s ?n = Some (gs, rest)" by simp
      from greedy_SomeD [OF this] show ?thesis by blast
    next
      case LazyStar
      with Cons.prems Grp have "lazy items s 0 ?n = Some (gs, rest)" by simp
      from lazy_SomeD [OF this] LazyStar show ?thesis by auto
    qed
    then obtain j gs' where j: "j \<le> ?n" "q = LazyStar \<or> 1 \<le> j" "gs = take j s # gs'"
      and m: "match_here items (drop j s) = Some (gs', rest)"
      by blast
    from Cons.IH [OF m] obtain w where w: "drop j s = w @ rest" "fits items gs' w"
      by blast
    from takeWhile_run [OF j(1)] have run: "list_all (in_cls c) (take j s)" "length (take j s) = j"
      by auto
    have s: "s = (take j s @ w) @ rest"
      using w(1) append_take_drop_id [of j s] by simp
    have "fits (i # items) gs (take j s @ w)"
      using j(2,3) run w(2) by (auto simp: Grp)
    with s show ?thesis by blast
  qed
qed

lemma match_complete:
  "fits items gs w \<Longrightarrow> match_here items (w @ rest) \<noteq> None"
proof (induction items arbitrary: gs w)
  case Nil
  then show ?case by simp
next
  case (Cons i items)
  show ?case
  proof (cases i)
    case (Lit v)
    with Cons.prems obtain w' where w: "w = v @ w'" "fits items gs w'"
      by (auto simp: take_eq_self_iff)
    from Cons.IH [OF w(2)] w(1) Lit show ?thesis by simp
  next
    case (Grp q c)
    with Cons.prems obtain g gs' w' where g: "gs = g # gs'" "w = g @ w'" "list_all (in_cls c) g"
      "q = LazyStar \<or> g \<noteq> []" "fits items gs' w'"
      by (cases gs) (auto simp: take_eq_self_iff)
    let ?s = "w @ rest"
    let ?n = "length (takeWhile (in_cls c) ?s)"
    have n: "length g \<le> ?n"
      using run_takeWhile [OF g(3), of "w' @ rest"] g(2) by simp
    have m: "match_here items (drop (length g) ?s) \<noteq> None"
      using Cons.IH [OF g(5)] g(2) by simp
    show ?thesis
    proof (cases q)
      case GreedyPlus
      with g(4) have "1 \<le> length g" by (cases g) auto
      from greedy_complete [OF this n m] GreedyPlus Grp show ?thesis by simp
    next
      case LazyStar
      from lazy_complete [of 0 "length g" ?n, OF _ _ m] n LazyStar Grp show ?thesis by simp
    qed
  qed
qed

lemma re_search_sound:
  "re_search items pre s = Some (pre', gs, rest) \<Longrightarrow>
     \<exists>u w. pre' = pre @ u \<and> s = u @ w @ rest \<and> fits items gs w"
proof (induction s arbitrary: pre)
  case Nil
  then obtain m where "match_here items [] = Some m" "(pre', gs, rest) = (pre, fst m, snd m)"
    by (auto split: option.splits)
  then have "match_here items [] = Some (gs, rest)" "pre' = pre" by auto
  from match_sound [OF this(1)] this(2) show ?case by auto
next
  case (Cons c cs)
  show ?case
  proof (cases "match_here items (c # cs)")
    case None
    with Cons.prems have "re_search items (pre @ [c]) cs = Some (pre', gs, rest)" by simp
    from Cons.IH [OF this] obtain u w where "pre' = (pre @ [c]) @ u" "cs = u @ w @ rest" "fits items gs w"
      by blast
    then show ?thesis by (intro exI [of _ "c # u"] exI [of _ w]) simp
  next
    case (Some m)
    with Cons.prems have "match_here items (c # cs) = Some (gs, rest)" "pre' = pre"
      by (auto split: prod.splits)
    from match_sound [OF this(1)] this(2) show ?thesis by auto
  qed
qed

lemma re_search_complete:
  "fits items gs w \<Longrightarrow> re_search items pre (u @ w @ rest) \<noteq> None"
proof (induction u arbitrary: pre)
  case Nil
  from match_complete [OF Nil, of rest] obtain m where "match_here items (w @ rest) = Some m"
    by blast
  then show ?case by (cases "w @ rest"; cases m) auto
next
  case (Cons c u)
  from Cons.IH [OF Cons.prems] show ?case
    by (cases "match_here items (c # u @ w @ rest)") (auto split: prod.splits)
qed

lemma fits_Lit_iff:
  "fits (Lit v # items) gs w \<longleftrightarrow> (\<exists>w'. w = v @ w' \<and> fits items gs w')"
  by (auto simp: take_eq_self_iff)

lemma fits_Grp_iff:
  "fits (Grp q c # items) gs w \<longleftrightarrow>
     (\<exists>g gs' w'. gs = g # gs' \<and> w = g @ w' \<and> list_all (in_cls c) g \<and> (q = LazyStar \<or> g \<noteq> []) \<and>
        fits items gs' w')"
  by (cases gs) (auto simp: take_eq_self_iff)

lemma in_cls_eq:
  "in_cls NonSpace = (\<lambda>c. \<not> isspace c)" "in_cls Digit = isdecimal" "in_cls Dot = (\<lambda>c. c \<noteq> 10)"
  by (rule ext, simp)+

lemma fits_log_pattern:
  "fits log_pattern gs w \<longleftrightarrow> log_groups gs \<and> w = log_text gs"
proof
  assume "fits log_pattern gs w"
  then show "log_groups gs \<and> w = log_text gs"
    unfolding log_pattern_def fits_Lit_iff fits_Grp_iff
    by (auto simp: log_groups_def log_text_def token_def number_def free_text_def in_cls_eq)
next
  assume a: "log_groups gs \<and> w = log_text gs"
  then have "length gs = 10" by (simp add: log_groups_def)
  then obtain g0 g1 g2 g3 g4 g5 g6 g7 g8 g9 where gs: "gs = [g0, g1, g2, g3, g4, g5, g6, g7, g8, g9]"
    by (auto simp: length_Suc_conv eval_nat_numeral)
  with a show "fits log_pattern gs w"
    unfolding log_pattern_def fits_Lit_iff fits_Grp_iff
    by (simp add: log_groups_def log_text_def token_def number_def free_text_def in_cls_eq)
qed

section \<open>Digits and \<open>int()\<close>\<close>

lemma todecimal_in_range:
  "todecimal_in rs c = Some d \<Longrightarrow> \<exists>p\<in>set rs. fst p \<le> c \<and> c \<le> snd p"
  by (induction rs c rule: todecimal_in.induct) (auto split: if_splits)

lemma decimal_ranges_clear: "list_all clear_of_space decimal_ranges"
  by (simp add: decimal_ranges_def clear_of_space_def)

lemma isdecimal_bounds: "isdecimal c \<Longrightarrow> 48 \<le> c \<and> \<not> isspace c"
proof -
  assume "isdecimal c"
  then obtain d where "todecimal_in decimal_ranges c = Some d"
    by (auto simp: isdecimal_def todecimal_def)
  from todecimal_in_range [OF this] obtain p
    where p: "p \<in> set decimal_ranges" "fst p \<le> c" "c \<le> snd p" by blast
  with decimal_ranges_clear have "clear_of_space p"
    by (simp add: list_all_iff)
  with p(2,3) show ?thesis
    unfolding clear_of_space_def isspace_def by arith
qed

lemma strip_id: "s \<noteq> [] \<Longrightarrow> \<not> isspace (hd s) \<Longrightarrow> \<not> isspace (last s) \<Longrightarrow> strip s = s"
proof -
  assume s: "s \<noteq> []" "\<not> isspace (hd s)" "\<not> isspace (last s)"
  then have "dropWhile isspace s = s"
    by (cases s) auto
  moreover from s have "dropWhile isspace (rev s) = rev s"
    by (cases "rev s") (auto simp: hd_rev)
  ultimately show ?thesis by (simp add: strip_def)
qed

lemma int_strip_id:
  "s \<noteq> [] \<Longrightarrow> \<not> isspace (hd s) \<Longrightarrow> \<not> isspace (last s) \<Longrightarrow> int_strip s = s"
proof -
  assume s: "s \<noteq> []" "\<not> isspace (hd s)" "\<not> isspace (last s)"
  then have "dropWhile int_space s = s"
    by (cases s) (auto simp: int_space_def)
  moreover from s have "dropWhile int_space (rev s) = rev s"
    by (cases "rev s") (auto simp: hd_rev int_space_def)
  ultimately show ?thesis by (simp add: int_strip_def)
qed

lemma int_digits_all:
  "list_all isdecimal cs \<Longrightarrow> int_digits acc cs = Some (foldl (\<lambda>a c. 10 * a + digit c) acc cs)"
  by (induction cs arbitrary: acc) (auto simp: isdecimal_def digit_def split: option.splits)

text \<open>
  On a run of decimal digits \<open>int()\<close> raises exactly when the run is longer than the
  cap, and otherwise returns the number that the run writes.
\<close>

lemma py_int_number:
  "number s \<Longrightarrow>
     py_int s = (if max_str_digits < length s then Inl ValueError
                 else Inr (int (decimal_value s)))"
proof -
  assume n: "number s"
  then obtain c cs where s: "s = c # cs" and c: "isdecimal c" and cs: "list_all isdecimal cs"
    by (cases s) (auto simp: number_def)
  from c obtain d where d: "todecimal c = Some d"
    by (auto simp: isdecimal_def)
  from n have "\<not> isspace (hd s)" "\<not> isspace (last s)" "s \<noteq> []"
    by (auto simp: number_def list_all_iff dest!: isdecimal_bounds)
  then have "int_strip s = s" by (simp add: int_strip_id)
  moreover from c cs have f: "filter isdecimal (c # cs) = c # cs"
    by (simp add: list_all_iff)
  have u: "int_unsigned (c # cs) =
      (if max_str_digits < length (c # cs) then None else Some (decimal_value (c # cs)))"
    unfolding int_unsigned_def f using d int_digits_all [OF cs, of d]
    by (simp add: decimal_value_def digit_def)
  moreover from isdecimal_bounds [OF c] have "int_signed (c # cs) = map_option int (int_unsigned (c # cs))"
    by (auto simp: int_signed_def)
  ultimately show ?thesis
    by (simp add: py_int_def s)
qed

section \<open>Splitting a line at the log pattern\<close>

lemma log_text_nonempty: "log_text gs \<noteq> []"
  by (simp add: log_text_def str_def)

lemma re_split_nonempty: "re_split items s \<noteq> []"
  by (subst re_split.simps) (auto split: option.splits)

lemma re_split_log_None:
  "re_search log_pattern [] s = None \<Longrightarrow> re_split log_pattern s = [s]"
  by (subst re_split.simps) simp

lemma re_split_log_Some:
  assumes "re_search log_pattern [] s = Some (pre, gs, rest)"
  shows "re_split log_pattern s = pre # gs @ re_split log_pattern rest"
    and "log_groups gs" and "s = pre @ log_text gs @ rest"
proof -
  from re_search_sound [OF assms] obtain w where w: "s = pre @ w @ rest" "fits log_pattern gs w"
    by auto
  then show "log_groups gs" "s = pre @ log_text gs @ rest"
    by (auto simp: fits_log_pattern)
  from w have "length rest < length s"
    using log_text_nonempty [of gs] by (cases "log_text gs") (auto simp: fits_log_pattern)
  with assms show "re_split log_pattern s = pre # gs @ re_split log_pattern rest"
    by (subst re_split.simps) simp
qed

lemma re_search_log_Nil: "re_search log_pattern pre [] = None"
  by (simp add: log_pattern_def)

text \<open>
  What \<open>parse_log_line\<close> does, read off the search: no match, no entry; a status group
  too long for \<open>int()\<close>, the diagnostic; the timestamp \<open>-\<close>, no entry; else the entry.
\<close>

lemma parse_log_line_eq:
  "parse_log_line raw =
     (case re_search log_pattern [] (strip raw) of
        None \<Rightarrow> ([], None)
      | Some (pre, gs, rest) \<Rightarrow>
          if max_str_digits < length (gs ! 5)
          then ([Skipping_malformed (take 100 (strip raw)) ValueError], None)
          else if gs ! 3 = str ''-'' then ([], None)
          else ([], Some \<lparr>ip = gs ! 0, timestamp = gs ! 3, request = gs ! 4,
                           status = int (decimal_value (gs ! 5)), user_agent = gs ! 8\<rparr>))"
proof (cases "re_search log_pattern [] (strip raw)")
  case None
  then show ?thesis
    by (simp add: parse_log_line_def re_split_log_None Let_def)
next
  case (Some m)
  obtain pre gs rest where m: "m = (pre, gs, rest)" by (cases m)
  note r = re_split_log_Some [OF Some [unfolded m]]
  from r(2) obtain g0 g1 g2 g3 g4 g5 g6 g7 g8 g9 where gs: "gs = [g0, g1, g2, g3, g4, g5, g6, g7, g8, g9]"
    by (auto simp: log_groups_def length_Suc_conv eval_nat_numeral)
  from r(2) gs have "number g5" by (simp add: log_groups_def)
  note i = py_int_number [OF this]
  obtain x xs where x: "re_split log_pattern rest = x # xs"
    using re_split_nonempty [of log_pattern rest] by (cases "re_split log_pattern rest") auto
  from Some have "strip raw \<noteq> []"
    using re_search_log_Nil [of "[]"] by (auto simp del: re_search.simps)
  then show ?thesis
    by (simp add: parse_log_line_def Let_def Some m r(1) gs x extract_fields_def subscript_def i)
qed

section \<open>Evaluating the parser on a given line\<close>

lemma isspace_numeral:
  "isspace (numeral n) \<longleftrightarrow>
     (9 \<le> (numeral n :: nat) \<and> (numeral n :: nat) \<le> 13) \<or>
     (28 \<le> (numeral n :: nat) \<and> (numeral n :: nat) \<le> 32) \<or>
     (numeral n :: nat) = 133 \<or> (numeral n :: nat) = 160 \<or> (numeral n :: nat) = 5760 \<or>
     (8192 \<le> (numeral n :: nat) \<and> (numeral n :: nat) \<le> 8202) \<or> (numeral n :: nat) = 8232 \<or>
     (numeral n :: nat) = 8233 \<or> (numeral n :: nat) = 8239 \<or> (numeral n :: nat) = 8287 \<or>
     (numeral n :: nat) = 12288"
  by (rule isspace_def)

lemma todecimal_numeral: "todecimal (numeral n) = todecimal_in decimal_ranges (numeral n)"
  by (rule todecimal_def)

lemma isdecimal_numeral: "isdecimal (numeral n) \<longleftrightarrow> todecimal_in decimal_ranges (numeral n) \<noteq> None"
  by (simp add: isdecimal_def todecimal_def)

lemmas eval = str_def strip_def isspace_numeral isdecimal_numeral todecimal_numeral
  decimal_ranges_def log_pattern_def decimal_value_def digit_def

lemma contains_iff_search: "contains_log_line s \<longleftrightarrow> re_search log_pattern [] s \<noteq> None"
proof
  assume "contains_log_line s"
  then obtain pre gs rest where "log_groups gs" "s = pre @ log_text gs @ rest"
    by (auto simp: contains_log_line_def)
  then show "re_search log_pattern [] s \<noteq> None"
    using re_search_complete [of log_pattern gs "log_text gs" "[]" pre rest]
    by (simp add: fits_log_pattern)
next
  assume "re_search log_pattern [] s \<noteq> None"
  then obtain pre gs rest where "re_search log_pattern [] s = Some (pre, gs, rest)"
    by auto
  from re_split_log_Some(2,3) [OF this] show "contains_log_line s"
    by (auto simp: contains_log_line_def)
qed

lemma is_log_line_last: "is_log_line s \<Longrightarrow> isdecimal (last s)"
  by (auto simp: is_log_line_def log_text_def log_groups_def number_def list_all_iff)

section \<open>Lines whose free text holds no delimiter\<close>

text \<open>
  Where the runs of a greedy group end by themselves and the text of a lazy group does
  not hold the first character of the literal after it, the matcher's first way of
  matching is the plain one. This gives the match of such a line without running the
  matcher on it.
\<close>

lemma match_token_step:
  assumes "g \<noteq> []" "list_all (in_cls c) g" "t = [] \<or> \<not> in_cls c (hd t)"
    and "match_here items t = Some (gs, rest)"
  shows "match_here (Grp GreedyPlus c # items) (g @ t) = Some (g # gs, rest)"
proof -
  from assms(3) have "takeWhile (in_cls c) t = []"
    by (cases t) auto
  with assms(2) have "takeWhile (in_cls c) (g @ t) = g"
    by (simp add: list_all_iff takeWhile_append2)
  moreover from assms(1) obtain k where "length g = Suc k"
    by (cases g) auto
  ultimately show ?thesis
    using assms(4) by simp
qed

lemma lazy_first_success:
  "k \<le> j \<Longrightarrow> j \<le> k + n \<Longrightarrow> \<forall>i. k \<le> i \<and> i < j \<longrightarrow> match_here items (drop i s) = None \<Longrightarrow>
     match_here items (drop j s) = Some (gs, rest) \<Longrightarrow>
     lazy items s k n = Some (take j s # gs, rest)"
proof (induction n arbitrary: k)
  case 0
  then show ?case by simp
next
  case (Suc n)
  show ?case
  proof (cases "j = k")
    case True
    with Suc.prems show ?thesis by simp
  next
    case False
    with Suc.prems have "match_here items (drop k s) = None" "Suc k \<le> j" "j \<le> Suc k + n"
      by auto
    with Suc.IH [of "Suc k"] Suc.prems show ?thesis by simp
  qed
qed

lemma match_lazy_step:
  assumes "list_all (in_cls c) g" "\<forall>i<length g. match_here items (drop i g @ t) = None"
    and "match_here items t = Some (gs, rest)"
  shows "match_here (Grp LazyStar c # items) (g @ t) = Some (g # gs, rest)"
proof -
  have "length g \<le> length (takeWhile (in_cls c) (g @ t))"
    using assms(1) by (rule run_takeWhile)
  with assms(2,3) lazy_first_success [of 0 "length g" "length (takeWhile (in_cls c) (g @ t))" items "g @ t" gs rest]
  show ?thesis by simp
qed

lemma lit_mismatch:
  "w \<noteq> [] \<Longrightarrow> s \<noteq> [] \<Longrightarrow> hd s \<noteq> hd w \<Longrightarrow> match_here (Lit w # items) s = None"
  by (cases w; cases s) auto

lemma token_lit:
  assumes "g \<noteq> []" "list_all (in_cls c) g" "w \<noteq> []" "\<not> in_cls c (hd w)"
    and "match_here items t = Some (gs, rest)"
  shows "match_here (Grp GreedyPlus c # Lit w # items) (g @ w @ t) = Some (g # gs, rest)"
  using assms by (intro match_token_step) auto

lemma lazy_lit:
  assumes "list_all (in_cls c) g" "w \<noteq> []" "hd w \<notin> set g"
    and "match_here items t = Some (gs, rest)"
  shows "match_here (Grp LazyStar c # Lit w # items) (g @ w @ t) = Some (g # gs, rest)"
proof (rule match_lazy_step)
  show "list_all (in_cls c) g" by fact
  show "match_here (Lit w # items) (w @ t) = Some (gs, rest)"
    using assms(4) by simp
  show "\<forall>i<length g. match_here (Lit w # items) (drop i g @ w @ t) = None"
  proof (intro allI impI)
    fix i assume i: "i < length g"
    then have "hd (drop i g @ w @ t) = g ! i"
      by (simp add: hd_append hd_drop_conv_nth)
    moreover from i assms(3) have "g ! i \<noteq> hd w"
      by (metis nth_mem)
    ultimately show "match_here (Lit w # items) (drop i g @ w @ t) = None"
      using i assms(2) by (intro lit_mismatch) auto
  qed
qed

lemma re_search_here:
  "s \<noteq> [] \<Longrightarrow> match_here items s = Some (gs, rest) \<Longrightarrow> re_search items pre s = Some (pre, gs, rest)"
  by (cases s) auto

lemma match_plain_line:
  assumes "log_groups gs" "93 \<notin> set (gs ! 3)" "34 \<notin> set (gs ! 4)" "34 \<notin> set (gs ! 7)"
    "34 \<notin> set (gs ! 8)" "rest = [] \<or> \<not> isdecimal (hd rest)"
  shows "re_search log_pattern [] (log_text gs @ rest) = Some ([], gs, rest)"
proof -
  from assms(1) obtain g0 g1 g2 g3 g4 g5 g6 g7 g8 g9 where gs: "gs = [g0, g1, g2, g3, g4, g5, g6, g7, g8, g9]"
    by (auto simp: log_groups_def length_Suc_conv eval_nat_numeral)
  from assms(1) gs have tok: "token g0" "token g1" "token g2"
    and num: "number g5" "number g6" "number g9"
    and ftx: "free_text g3" "free_text g4" "free_text g7" "free_text g8"
    by (simp_all add: log_groups_def)
  from assms(2-5) gs have nd: "93 \<notin> set g3" "34 \<notin> set g4" "34 \<notin> set g7" "34 \<notin> set g8"
    by simp_all
  have sp: "isspace 32" "\<not> isdecimal 32"
    using isdecimal_bounds [of 32] by (auto simp: isspace_def)
  have 9: "match_here [Grp GreedyPlus Digit] (g9 @ rest) = Some ([g9], rest)"
    by (rule match_token_step [OF _ _ _ match_here.simps(1)])
       (use num(3) assms(6) in \<open>auto simp: number_def in_cls_eq\<close>)
  have 8: "match_here (Grp LazyStar Dot # Lit (str [CHR 0x22, CHR '' '']) # [Grp GreedyPlus Digit])
             (g8 @ str [CHR 0x22, CHR '' ''] @ g9 @ rest) = Some ([g8, g9], rest)"
    by (rule lazy_lit [OF _ _ _ 9])
       (use ftx(4) nd(4) in \<open>auto simp: free_text_def in_cls_eq str_def\<close>)
  have 7: "match_here (Grp LazyStar Dot # Lit (str [CHR 0x22, CHR '' '', CHR 0x22]) #
              Grp LazyStar Dot # Lit (str [CHR 0x22, CHR '' '']) # [Grp GreedyPlus Digit])
             (g7 @ str [CHR 0x22, CHR '' '', CHR 0x22] @ g8 @ str [CHR 0x22, CHR '' ''] @ g9 @ rest)
           = Some ([g7, g8, g9], rest)"
    by (rule lazy_lit [OF _ _ _ 8])
       (use ftx(3) nd(3) in \<open>auto simp: free_text_def in_cls_eq str_def\<close>)
  have 6: "match_here (Grp GreedyPlus Digit # Lit (str [CHR '' '', CHR 0x22]) #
              Grp LazyStar Dot # Lit (str [CHR 0x22, CHR '' '', CHR 0x22]) #
              Grp LazyStar Dot # Lit (str [CHR 0x22, CHR '' '']) # [Grp GreedyPlus Digit])
             (g6 @ str [CHR '' '', CHR 0x22] @ g7 @ str [CHR 0x22, CHR '' '', CHR 0x22] @ g8 @
              str [CHR 0x22, CHR '' ''] @ g9 @ rest)
           = Some ([g6, g7, g8, g9], rest)"
    by (rule token_lit [OF _ _ _ _ 7])
       (use num(2) sp in \<open>auto simp: number_def in_cls_eq str_def\<close>)
  have 5: "match_here (Grp GreedyPlus Digit # Lit (str '' '') #
              Grp GreedyPlus Digit # Lit (str [CHR '' '', CHR 0x22]) #
              Grp LazyStar Dot # Lit (str [CHR 0x22, CHR '' '', CHR 0x22]) #
              Grp LazyStar Dot # Lit (str [CHR 0x22, CHR '' '']) # [Grp GreedyPlus Digit])
             (g5 @ str '' '' @ g6 @ str [CHR '' '', CHR 0x22] @ g7 @
              str [CHR 0x22, CHR '' '', CHR 0x22] @ g8 @ str [CHR 0x22, CHR '' ''] @ g9 @ rest)
           = Some ([g5, g6, g7, g8, g9], rest)"
    by (rule token_lit [OF _ _ _ _ 6])
       (use num(1) sp in \<open>auto simp: number_def in_cls_eq str_def\<close>)
  have 4: "match_here (Grp LazyStar Dot # Lit (str [CHR 0x22, CHR '' '']) #
              Grp GreedyPlus Digit # Lit (str '' '') #
              Grp GreedyPlus Digit # Lit (str [CHR '' '', CHR 0x22]) #
              Grp LazyStar Dot # Lit (str [CHR 0x22, CHR '' '', CHR 0x22]) #
              Grp LazyStar Dot # Lit (str [CHR 0x22, CHR '' '']) # [Grp GreedyPlus Digit])
             (g4 @ str [CHR 0x22, CHR '' ''] @ g5 @ str '' '' @ g6 @ str [CHR '' '', CHR 0x22] @ g7 @
              str [CHR 0x22, CHR '' '', CHR 0x22] @ g8 @ str [CHR 0x22, CHR '' ''] @ g9 @ rest)
           = Some ([g4, g5, g6, g7, g8, g9], rest)"
    by (rule lazy_lit [OF _ _ _ 5])
       (use ftx(2) nd(2) in \<open>auto simp: free_text_def in_cls_eq str_def\<close>)
  have 3: "match_here (Grp LazyStar Dot # Lit (str [CHR '']'', CHR '' '', CHR 0x22]) #
              Grp LazyStar Dot # Lit (str [CHR 0x22, CHR '' '']) #
              Grp GreedyPlus Digit # Lit (str '' '') #
              Grp GreedyPlus Digit # Lit (str [CHR '' '', CHR 0x22]) #
              Grp LazyStar Dot # Lit (str [CHR 0x22, CHR '' '', CHR 0x22]) #
              Grp LazyStar Dot # Lit (str [CHR 0x22, CHR '' '']) # [Grp GreedyPlus Digit])
             (g3 @ str [CHR '']'', CHR '' '', CHR 0x22] @ g4 @ str [CHR 0x22, CHR '' ''] @ g5 @
              str '' '' @ g6 @ str [CHR '' '', CHR 0x22] @ g7 @
              str [CHR 0x22, CHR '' '', CHR 0x22] @ g8 @ str [CHR 0x22, CHR '' ''] @ g9 @ rest)
           = Some ([g3, g4, g5, g6, g7, g8, g9], rest)"
    by (rule lazy_lit [OF _ _ _ 4])
       (use ftx(1) nd(1) in \<open>auto simp: free_text_def in_cls_eq str_def\<close>)
  have 2: "match_here (Grp GreedyPlus NonSpace # Lit (str '' ['') #
              Grp LazyStar Dot # Lit (str [CHR '']'', CHR '' '', CHR 0x22]) #
              Grp LazyStar Dot # Lit (str [CHR 0x22, CHR '' '']) #
              Grp GreedyPlus Digit # Lit (str '' '') #
              Grp GreedyPlus Digit # Lit (str [CHR '' '', CHR 0x22]) #
              Grp LazyStar Dot # Lit (str [CHR 0x22, CHR '' '', CHR 0x22]) #
              Grp LazyStar Dot # Lit (str [CHR 0x22, CHR '' '']) # [Grp GreedyPlus Digit])
             (g2 @ str '' ['' @ g3 @ str [CHR '']'', CHR '' '', CHR 0x22] @ g4 @
              str [CHR 0x22, CHR '' ''] @ g5 @ str '' '' @ g6 @ str [CHR '' '', CHR 0x22] @ g7 @
              str [CHR 0x22, CHR '' '', CHR 0x22] @ g8 @ str [CHR 0x22, CHR '' ''] @ g9 @ rest)
           = Some ([g2, g3, g4, g5, g6, g7, g8, g9], rest)"
    by (rule token_lit [OF _ _ _ _ 3])
       (use tok(3) sp in \<open>auto simp: token_def in_cls_eq str_def\<close>)
  have 1: "match_here (Grp GreedyPlus NonSpace # Lit (str '' '') #
              Grp GreedyPlus NonSpace # Lit (str '' ['') #
              Grp LazyStar Dot # Lit (str [CHR '']'', CHR '' '', CHR 0x22]) #
              Grp LazyStar Dot # Lit (str [CHR 0x22, CHR '' '']) #
              Grp GreedyPlus Digit # Lit (str '' '') #
              Grp GreedyPlus Digit # Lit (str [CHR '' '', CHR 0x22]) #
              Grp LazyStar Dot # Lit (str [CHR 0x22, CHR '' '', CHR 0x22]) #
              Grp LazyStar Dot # Lit (str [CHR 0x22, CHR '' '']) # [Grp GreedyPlus Digit])
             (g1 @ str '' '' @ g2 @ str '' ['' @ g3 @ str [CHR '']'', CHR '' '', CHR 0x22] @ g4 @
              str [CHR 0x22, CHR '' ''] @ g5 @ str '' '' @ g6 @ str [CHR '' '', CHR 0x22] @ g7 @
              str [CHR 0x22, CHR '' '', CHR 0x22] @ g8 @ str [CHR 0x22, CHR '' ''] @ g9 @ rest)
           = Some ([g1, g2, g3, g4, g5, g6, g7, g8, g9], rest)"
    by (rule token_lit [OF _ _ _ _ 2])
       (use tok(2) sp in \<open>auto simp: token_def in_cls_eq str_def\<close>)
  have 0: "match_here log_pattern
             (g0 @ str '' '' @ g1 @ str '' '' @ g2 @ str '' ['' @ g3 @
              str [CHR '']'', CHR '' '', CHR 0x22] @ g4 @
              str [CHR 0x22, CHR '' ''] @ g5 @ str '' '' @ g6 @ str [CHR '' '', CHR 0x22] @ g7 @
              str [CHR 0x22, CHR '' '', CHR 0x22] @ g8 @ str [CHR 0x22, CHR '' ''] @ g9 @ rest)
           = Some ([g0, g1, g2, g3, g4, g5, g6, g7, g8, g9], rest)"
    unfolding log_pattern_def
    by (rule token_lit [OF _ _ _ _ 1])
       (use tok(1) sp in \<open>auto simp: token_def in_cls_eq str_def\<close>)
  have "log_text gs @ rest \<noteq> []"
    using log_text_nonempty [of gs] by simp
  from re_search_here [OF this, of log_pattern gs rest "[]"] 0 show ?thesis
    by (simp add: gs log_text_def)
qed

section \<open>Lines of the grammar without delimiters in their free text\<close>

lemma strip_log_text: "log_groups gs \<Longrightarrow> strip (log_text gs) = log_text gs"
proof -
  assume g: "log_groups gs"
  then obtain g0 g1 g2 g3 g4 g5 g6 g7 g8 g9 where gs: "gs = [g0, g1, g2, g3, g4, g5, g6, g7, g8, g9]"
    by (auto simp: log_groups_def length_Suc_conv eval_nat_numeral)
  from g gs have "token g0" "number g9" by (simp_all add: log_groups_def)
  then have "g0 \<noteq> []" "\<not> isspace (hd g0)" "g9 \<noteq> []" "\<not> isspace (last g9)"
    by (auto simp: token_def number_def list_all_iff dest!: isdecimal_bounds)
  then have "\<not> isspace (hd (log_text gs))" "\<not> isspace (last (log_text gs))"
    by (simp_all add: gs log_text_def str_def)
  with log_text_nonempty [of gs] show ?thesis
    by (simp add: strip_id)
qed

text \<open>
  The search in a line that is a line of the grammar, with no delimiter in its free
  text.
\<close>

lemma plain_line_search:
  assumes "line = log_text gs" "log_groups gs" "93 \<notin> set (gs ! 3)" "34 \<notin> set (gs ! 4)"
    "34 \<notin> set (gs ! 7)" "34 \<notin> set (gs ! 8)"
  shows "re_search log_pattern [] (strip line) = Some ([], gs, [])"
  using match_plain_line [OF assms(2-6), of "[]"] assms(1,2) by (simp add: strip_log_text)

lemma list_all_replicate: "P x \<Longrightarrow> list_all P (replicate n x)"
  by (simp add: list_all_iff)

lemmas groups_eval = log_groups_def token_def number_def free_text_def log_text_def str_def
  isspace_numeral isdecimal_numeral decimal_ranges_def list_all_replicate

text \<open>A line whose status group is 4301 digits long, with timestamp \<open>ts\<close>.\<close>

lemma long_status_search:
  assumes "line = str ''a b c ['' @ ts @ str [CHR '']'', CHR '' '', CHR 0x22, CHR ''r'', CHR 0x22, CHR '' ''] @
                  replicate 4301 49 @ str [CHR '' '', CHR ''2'', CHR '' '', CHR 0x22, CHR ''f'', CHR 0x22,
                    CHR '' '', CHR 0x22, CHR ''u'', CHR 0x22, CHR '' '', CHR ''3'']"
    and "ts = str ''t'' \<or> ts = str ''-''"
  shows "re_search log_pattern [] (strip line) =
           Some ([], [str ''a'', str ''b'', str ''c'', ts, str ''r'', replicate 4301 49, str ''2'',
                      str ''f'', str ''u'', str ''3''], [])"
  using assms by (intro plain_line_search) (auto simp: groups_eval)

section \<open>The line parser: the claims\<close>

text \<open>
  C1, as stated: for every line in which the pattern matches and whose timestamp group
  is not the text \<open>-\<close>, \<open>parse_log_line\<close> returns the entry made of the groups. It fails:
  \<open>int()\<close> at line 49 raises \<open>ValueError\<close> on a status group of more than 4300 digits. In
  the line below the pattern matches, the timestamp is \<open>t\<close>, the status group is 4301
  times the digit \<open>1\<close>; the diagnostic is printed and no entry is returned.
\<close>

theorem parse_log_line_long_status_counterexample:
  \<open>re_search log_pattern []
     (strip (str ''a b c [t] "r" '' @ replicate 4301 (of_char CHR ''1'') @ str '' 2 "f" "u" 3'')) =
     Some ([], [str ''a'', str ''b'', str ''c'', str ''t'', str ''r'',
                replicate 4301 (of_char CHR ''1''), str ''2'', str ''f'', str ''u'', str ''3''], []) \<and>
   str ''t'' \<noteq> str ''-'' \<and>
   parse_log_line (str ''a b c [t] "r" '' @ replicate 4301 (of_char CHR ''1'') @ str '' 2 "f" "u" 3'') =
     ([Skipping_malformed (str ''a b c [t] "r" '' @ replicate 86 (of_char CHR ''1'')) ValueError], None)\<close>
proof -
  have 1: \<open>re_search log_pattern []
     (strip (str ''a b c [t] "r" '' @ replicate 4301 49 @ str '' 2 "f" "u" 3'')) =
     Some ([], [str ''a'', str ''b'', str ''c'', str ''t'', str ''r'',
                replicate 4301 49, str ''2'', str ''f'', str ''u'', str ''3''], [])\<close>
    by (rule long_status_search) (simp_all add: str_def)
  from re_split_log_Some(3) [OF 1] have 2: \<open>strip (str ''a b c [t] "r" '' @ replicate 4301 49 @ str '' 2 "f" "u" 3'') =
      log_text [str ''a'', str ''b'', str ''c'', str ''t'', str ''r'',
                replicate 4301 49, str ''2'', str ''f'', str ''u'', str ''3'']\<close>
    by simp
  have 3: \<open>take 100 (log_text [str ''a'', str ''b'', str ''c'', str ''t'', str ''r'',
                replicate 4301 49, str ''2'', str ''f'', str ''u'', str ''3'']) =
            str ''a b c [t] "r" '' @ replicate 86 49\<close>
    by (simp add: log_text_def str_def)
  from 1 have 4: \<open>parse_log_line (str ''a b c [t] "r" '' @ replicate 4301 49 @ str '' 2 "f" "u" 3'') =
      ([Skipping_malformed
          (take 100 (strip (str ''a b c [t] "r" '' @ replicate 4301 49 @ str '' 2 "f" "u" 3'')))
          ValueError], None)\<close>
    by (simp add: parse_log_line_eq max_str_digits_def)
  from 1 4 [unfolded 2 3] show ?thesis
    by (simp add: str_def)
qed

text \<open>
  C1, amended: for every line in which the pattern matches, whose timestamp group is
  not the text \<open>-\<close> and whose status group has at most 4300 digits, \<open>parse_log_line\<close>
  prints nothing and returns the entry whose fields are groups 1, 4, 5 and 9 of the
  match and, as status, the integer that group 6 writes. The match is the one \<open>re\<close>
  reports (leftmost, first in backtracking order); its groups are a reading of the log
  grammar in the stripped line.
\<close>

theorem parse_log_line_fields:
  assumes "re_search log_pattern [] (strip line) = Some (pre, gs, rest)"
    and "gs ! 3 \<noteq> str ''-''"
    and "length (gs ! 5) \<le> max_str_digits"
  shows "parse_log_line line =
           ([], Some \<lparr>ip = gs ! 0, timestamp = gs ! 3, request = gs ! 4,
                       status = int (decimal_value (gs ! 5)), user_agent = gs ! 8\<rparr>) \<and>
         log_groups gs \<and> strip line = pre @ log_text gs @ rest"
  using assms re_split_log_Some(2,3) [OF assms(1)] by (simp add: parse_log_line_eq)

theorem parse_log_line_fields_witness:
  \<open>re_search log_pattern [] (strip (str ''1.2.3.4 - - [01/07/2025:06:00:02] "GET /a" 200 5 "-" "curl" 7''))
     = Some ([], [str ''1.2.3.4'', str ''-'', str ''-'', str ''01/07/2025:06:00:02'', str ''GET /a'',
                  str ''200'', str ''5'', str ''-'', str ''curl'', str ''7''], []) \<and>
   str ''01/07/2025:06:00:02'' \<noteq> str ''-'' \<and>
   length (str ''200'') \<le> max_str_digits \<and>
   parse_log_line (str ''1.2.3.4 - - [01/07/2025:06:00:02] "GET /a" 200 5 "-" "curl" 7'') =
     ([], Some \<lparr>ip = str ''1.2.3.4'', timestamp = str ''01/07/2025:06:00:02'', request = str ''GET /a'',
                 status = 200, user_agent = str ''curl''\<rparr>)\<close>
proof -
  have 1: \<open>re_search log_pattern [] (strip (str ''1.2.3.4 - - [01/07/2025:06:00:02] "GET /a" 200 5 "-" "curl" 7''))
     = Some ([], [str ''1.2.3.4'', str ''-'', str ''-'', str ''01/07/2025:06:00:02'', str ''GET /a'',
                  str ''200'', str ''5'', str ''-'', str ''curl'', str ''7''], [])\<close>
    by (rule plain_line_search) (simp_all add: groups_eval)
  have 2: \<open>[str ''1.2.3.4'', str ''-'', str ''-'', str ''01/07/2025:06:00:02'', str ''GET /a'',
                  str ''200'', str ''5'', str ''-'', str ''curl'', str ''7''] ! 3 \<noteq> str ''-''\<close>
    by (simp add: str_def)
  have 3: \<open>length ([str ''1.2.3.4'', str ''-'', str ''-'', str ''01/07/2025:06:00:02'', str ''GET /a'',
                  str ''200'', str ''5'', str ''-'', str ''curl'', str ''7''] ! 5) \<le> max_str_digits\<close>
    by (simp add: str_def max_str_digits_def)
  have 4: \<open>int (decimal_value (str ''200'')) = 200\<close>
    by (simp add: eval)
  from parse_log_line_fields [OF 1 2 3] 1 3 4 show ?thesis
    by (simp add: str_def)
qed

text \<open>
  C2, as stated: a line is accepted only if the whole of it is a line of the grammar.
  It fails: the parser searches the line for the pattern, so text before and after a
  match is passed over. The line below is accepted, and is no line of the grammar.
\<close>

theorem parse_log_line_whole_line_counterexample:
  \<open>snd (parse_log_line (str ''x 1.2.3.4 - - [t] "GET /a" 200 5 "-" "curl" 7 y'')) =
     Some \<lparr>ip = str ''1.2.3.4'', timestamp = str ''t'', request = str ''GET /a'',
            status = 200, user_agent = str ''curl''\<rparr> \<and>
   \<not> is_log_line (strip (str ''x 1.2.3.4 - - [t] "GET /a" 200 5 "-" "curl" 7 y''))\<close>
proof -
  have 1: \<open>re_search log_pattern [] (strip (str ''x 1.2.3.4 - - [t] "GET /a" 200 5 "-" "curl" 7 y''))
     = Some (str ''x '', [str ''1.2.3.4'', str ''-'', str ''-'', str ''t'', str ''GET /a'',
                  str ''200'', str ''5'', str ''-'', str ''curl'', str ''7''], str '' y'')\<close>
    by (simp add: eval)
  have 2: \<open>int (decimal_value (str ''200'')) = 200\<close>
    by (simp add: eval)
  have 3: \<open>\<not> isdecimal (last (strip (str ''x 1.2.3.4 - - [t] "GET /a" 200 5 "-" "curl" 7 y'')))\<close>
    by (simp add: eval)
  from 1 2 have \<open>snd (parse_log_line (str ''x 1.2.3.4 - - [t] "GET /a" 200 5 "-" "curl" 7 y'')) =
     Some \<lparr>ip = str ''1.2.3.4'', timestamp = str ''t'', request = str ''GET /a'',
            status = 200, user_agent = str ''curl''\<rparr>\<close>
    by (simp add: parse_log_line_eq max_str_digits_def) (simp add: str_def)
  with 3 is_log_line_last show ?thesis by blast
qed

text \<open>
  C2, amended: \<open>parse_log_line\<close> returns an entry only if some part of the stripped line
  is a line of the grammar (text before and after that part is passed over), and the
  entry then holds groups of such a part, the status being the integer that its sixth
  group writes; for a line no part of which is a line of the grammar it prints nothing
  and returns no entry.
\<close>

theorem parse_log_line_accepts_only_grammar:
  "(snd (parse_log_line line) = Some e \<longrightarrow>
      (\<exists>pre gs rest. log_groups gs \<and> strip line = pre @ log_text gs @ rest \<and>
         ip e = gs ! 0 \<and> timestamp e = gs ! 3 \<and> request e = gs ! 4 \<and>
         status e = int (decimal_value (gs ! 5)) \<and> user_agent e = gs ! 8)) \<and>
   (\<not> contains_log_line (strip line) \<longrightarrow> parse_log_line line = ([], None))"
proof (cases "re_search log_pattern [] (strip line)")
  case None
  then show ?thesis
    by (simp add: parse_log_line_eq contains_iff_search)
next
  case (Some m)
  obtain pre gs rest where m: "m = (pre, gs, rest)" by (cases m)
  note r = re_split_log_Some(2,3) [OF Some [unfolded m]]
  have "\<exists>pre gs rest. log_groups gs \<and> strip line = pre @ log_text gs @ rest \<and>
         ip e = gs ! 0 \<and> timestamp e = gs ! 3 \<and> request e = gs ! 4 \<and>
         status e = int (decimal_value (gs ! 5)) \<and> user_agent e = gs ! 8"
    if "snd (parse_log_line line) = Some e"
  proof -
    from that Some m have "e = \<lparr>ip = gs ! 0, timestamp = gs ! 3, request = gs ! 4,
        status = int (decimal_value (gs ! 5)), user_agent = gs ! 8\<rparr>"
      by (auto simp: parse_log_line_eq split: if_splits)
    with r show ?thesis
      by (intro exI [of _ pre] exI [of _ gs] exI [of _ rest]) simp
  qed
  moreover from Some have "contains_log_line (strip line)"
    by (simp add: contains_iff_search)
  ultimately show ?thesis by blast
qed

theorem parse_log_line_accepts_only_grammar_witness:
  \<open>snd (parse_log_line (str ''x 1.2.3.4 - - [t] "GET /a" 200 5 "-" "curl" 7 y'')) =
     Some \<lparr>ip = str ''1.2.3.4'', timestamp = str ''t'', request = str ''GET /a'',
            status = 200, user_agent = str ''curl''\<rparr> \<and>
   contains_log_line (strip (str ''x 1.2.3.4 - - [t] "GET /a" 200 5 "-" "curl" 7 y'')) \<and>
   \<not> contains_log_line (strip (str ''GET /a 200'')) \<and>
   parse_log_line (str ''GET /a 200'') = ([], None)\<close>
proof -
  have 1: \<open>re_search log_pattern [] (strip (str ''x 1.2.3.4 - - [t] "GET /a" 200 5 "-" "curl" 7 y''))
     = Some (str ''x '', [str ''1.2.3.4'', str ''-'', str ''-'', str ''t'', str ''GET /a'',
                  str ''200'', str ''5'', str ''-'', str ''curl'', str ''7''], str '' y'')\<close>
    by (simp add: eval)
  have 2: \<open>int (decimal_value (str ''200'')) = 200\<close>
    by (simp add: eval)
  from 1 2 have a: \<open>snd (parse_log_line (str ''x 1.2.3.4 - - [t] "GET /a" 200 5 "-" "curl" 7 y'')) =
     Some \<lparr>ip = str ''1.2.3.4'', timestamp = str ''t'', request = str ''GET /a'',
            status = 200, user_agent = str ''curl''\<rparr>\<close>
    by (simp add: parse_log_line_eq max_str_digits_def) (simp add: str_def)
  from parse_log_line_accepts_only_grammar
         [of \<open>str ''x 1.2.3.4 - - [t] "GET /a" 200 5 "-" "curl" 7 y''\<close>] a
  have b: \<open>contains_log_line (strip (str ''x 1.2.3.4 - - [t] "GET /a" 200 5 "-" "curl" 7 y''))\<close>
    unfolding contains_log_line_def by blast
  have \<open>re_search log_pattern [] (strip (str ''GET /a 200'')) = None\<close>
    by (simp add: eval)
  then have c: \<open>\<not> contains_log_line (strip (str ''GET /a 200''))\<close>
    by (simp add: contains_iff_search)
  from parse_log_line_accepts_only_grammar [of \<open>str ''GET /a 200''\<close>] c
  have d: \<open>parse_log_line (str ''GET /a 200'') = ([], None)\<close>
    by blast
  from a b c d show ?thesis by blast
qed

text \<open>
  C3, as stated: every line in which the pattern matches with the timestamp \<open>-\<close> is
  rejected without a word. It fails: the status is converted (line 49) before the
  timestamp is looked at (line 53), and \<open>int()\<close> raises \<open>ValueError\<close> on a status group
  of more than 4300 digits. In the line below the pattern matches with the timestamp
  \<open>-\<close>, and the diagnostic is printed.
\<close>

theorem parse_log_line_silent_dash_counterexample:
  \<open>re_search log_pattern []
     (strip (str ''a b c [-] "r" '' @ replicate 4301 (of_char CHR ''1'') @ str '' 2 "f" "u" 3'')) =
     Some ([], [str ''a'', str ''b'', str ''c'', str ''-'', str ''r'',
                replicate 4301 (of_char CHR ''1''), str ''2'', str ''f'', str ''u'', str ''3''], []) \<and>
   parse_log_line (str ''a b c [-] "r" '' @ replicate 4301 (of_char CHR ''1'') @ str '' 2 "f" "u" 3'') =
     ([Skipping_malformed (str ''a b c [-] "r" '' @ replicate 86 (of_char CHR ''1'')) ValueError], None)\<close>
proof -
  have 1: \<open>re_search log_pattern []
     (strip (str ''a b c [-] "r" '' @ replicate 4301 49 @ str '' 2 "f" "u" 3'')) =
     Some ([], [str ''a'', str ''b'', str ''c'', str ''-'', str ''r'',
                replicate 4301 49, str ''2'', str ''f'', str ''u'', str ''3''], [])\<close>
    by (rule long_status_search) (simp_all add: str_def)
  from re_split_log_Some(3) [OF 1] have 2: \<open>strip (str ''a b c [-] "r" '' @ replicate 4301 49 @ str '' 2 "f" "u" 3'') =
      log_text [str ''a'', str ''b'', str ''c'', str ''-'', str ''r'',
                replicate 4301 49, str ''2'', str ''f'', str ''u'', str ''3'']\<close>
    by simp
  have 3: \<open>take 100 (log_text [str ''a'', str ''b'', str ''c'', str ''-'', str ''r'',
                replicate 4301 49, str ''2'', str ''f'', str ''u'', str ''3'']) =
            str ''a b c [-] "r" '' @ replicate 86 49\<close>
    by (simp add: log_text_def str_def)
  from 1 have 4: \<open>parse_log_line (str ''a b c [-] "r" '' @ replicate 4301 49 @ str '' 2 "f" "u" 3'') =
      ([Skipping_malformed
          (take 100 (strip (str ''a b c [-] "r" '' @ replicate 4301 49 @ str '' 2 "f" "u" 3'')))
          ValueError], None)\<close>
    by (simp add: parse_log_line_eq max_str_digits_def)
  from 1 4 [unfolded 2 3] show ?thesis
    by (simp add: str_def)
qed

text \<open>
  C3, amended: \<open>parse_log_line\<close> prints its diagnostic only when the pattern matched and
  the conversion of the status raised, which is when the status group of the match has
  more than 4300 digits, whatever the timestamp; it then prints the first 100
  characters of the stripped line and returns no entry. A blank line, a line no part
  of which is a line of the grammar, and a line whose match has the timestamp \<open>-\<close> and a
  status group of at most 4300 digits are rejected without a word.
\<close>

theorem parse_log_line_diagnostic_only_on_extraction:
  "(fst (parse_log_line line) \<noteq> [] \<longrightarrow>
      (\<exists>pre gs rest. re_search log_pattern [] (strip line) = Some (pre, gs, rest) \<and>
         max_str_digits < length (gs ! 5) \<and> py_int (gs ! 5) = Inl ValueError \<and>
         parse_log_line line = ([Skipping_malformed (take 100 (strip line)) ValueError], None))) \<and>
   ((\<exists>pre gs rest. re_search log_pattern [] (strip line) = Some (pre, gs, rest) \<and>
         max_str_digits < length (gs ! 5)) \<longrightarrow>
      fst (parse_log_line line) \<noteq> []) \<and>
   (strip line = [] \<or> \<not> contains_log_line (strip line) \<or>
      (\<exists>pre gs rest. re_search log_pattern [] (strip line) = Some (pre, gs, rest) \<and>
         gs ! 3 = str ''-'' \<and> length (gs ! 5) \<le> max_str_digits) \<longrightarrow>
      parse_log_line line = ([], None))"
proof (cases "re_search log_pattern [] (strip line)")
  case None
  then have "parse_log_line line = ([], None)"
    by (simp add: parse_log_line_eq)
  with None show ?thesis by simp
next
  case (Some m)
  obtain pre gs rest where m: "m = (pre, gs, rest)" by (cases m)
  note s = Some [unfolded m]
  from re_split_log_Some(2) [OF s] have n: "number (gs ! 5)"
    by (simp add: log_groups_def)
  from s have c: "contains_log_line (strip line)" "strip line \<noteq> []"
    using re_search_log_Nil [of "[]"] by (auto simp: contains_iff_search simp del: re_search.simps)
  show ?thesis
  proof (cases "max_str_digits < length (gs ! 5)")
    case True
    with s c py_int_number [OF n] show ?thesis
      by (simp add: parse_log_line_eq)
  next
    case False
    with s c show ?thesis
      by (simp add: parse_log_line_eq)
  qed
qed

theorem parse_log_line_diagnostic_only_on_extraction_witness:
  \<open>strip [32, 9, 10] = [] \<and> parse_log_line [32, 9, 10] = ([], None) \<and>
   \<not> contains_log_line (strip (str ''GET /a 200'')) \<and>
   parse_log_line (str ''GET /a 200'') = ([], None) \<and>
   re_search log_pattern [] (strip (str ''a b c [-] "r" 1 2 "f" "u" 3'')) =
     Some ([], [str ''a'', str ''b'', str ''c'', str ''-'', str ''r'', str ''1'', str ''2'',
                str ''f'', str ''u'', str ''3''], []) \<and>
   length (str ''1'') \<le> max_str_digits \<and>
   parse_log_line (str ''a b c [-] "r" 1 2 "f" "u" 3'') = ([], None) \<and>
   re_search log_pattern []
     (strip (str ''a b c [x] "r" '' @ replicate 4301 (of_char CHR ''1'') @ str '' 2 "f" "u" 3'')) =
     Some ([], [str ''a'', str ''b'', str ''c'', str ''x'', str ''r'',
                replicate 4301 (of_char CHR ''1''), str ''2'', str ''f'', str ''u'', str ''3''], []) \<and>
   max_str_digits < length (replicate 4301 (of_char CHR ''1'' :: nat)) \<and>
   fst (parse_log_line (str ''a b c [x] "r" '' @ replicate 4301 (of_char CHR ''1'') @ str '' 2 "f" "u" 3''))
     \<noteq> [] \<and>
   py_int (replicate 4301 (of_char CHR ''1'')) = Inl ValueError\<close>
proof -
  have a: "strip [32, 9, 10] = []"
    by (simp add: eval)
  have \<open>re_search log_pattern [] (strip (str ''GET /a 200'')) = None\<close>
    by (simp add: eval)
  then have b: \<open>\<not> contains_log_line (strip (str ''GET /a 200''))\<close>
    by (simp add: contains_iff_search)
  have c: \<open>re_search log_pattern [] (strip (str ''a b c [-] "r" 1 2 "f" "u" 3'')) =
     Some ([], [str ''a'', str ''b'', str ''c'', str ''-'', str ''r'', str ''1'', str ''2'',
                str ''f'', str ''u'', str ''3''], [])\<close>
    by (rule plain_line_search) (simp_all add: groups_eval)
  have c': \<open>[str ''a'', str ''b'', str ''c'', str ''-'', str ''r'', str ''1'', str ''2'',
                str ''f'', str ''u'', str ''3''] ! 3 = str ''-'' \<and>
            length ([str ''a'', str ''b'', str ''c'', str ''-'', str ''r'', str ''1'', str ''2'',
                str ''f'', str ''u'', str ''3''] ! 5) \<le> max_str_digits\<close>
    by (simp add: str_def max_str_digits_def)
  have d: \<open>re_search log_pattern []
     (strip (str ''a b c [x] "r" '' @ replicate 4301 (of_char CHR ''1'') @ str '' 2 "f" "u" 3'')) =
     Some ([], [str ''a'', str ''b'', str ''c'', str ''x'', str ''r'',
                replicate 4301 49, str ''2'', str ''f'', str ''u'', str ''3''], [])\<close>
    by (rule plain_line_search) (simp_all add: groups_eval)
  have d': \<open>max_str_digits < length ([str ''a'', str ''b'', str ''c'', str ''x'', str ''r'',
                replicate 4301 49, str ''2'', str ''f'', str ''u'', str ''3''] ! 5)\<close>
    by (simp add: max_str_digits_def)
  from parse_log_line_diagnostic_only_on_extraction [of "[32, 9, 10]"] a
  have 1: "parse_log_line [32, 9, 10] = ([], None)" by blast
  from parse_log_line_diagnostic_only_on_extraction [of \<open>str ''GET /a 200''\<close>] b
  have 2: \<open>parse_log_line (str ''GET /a 200'') = ([], None)\<close> by blast
  from parse_log_line_diagnostic_only_on_extraction [of \<open>str ''a b c [-] "r" 1 2 "f" "u" 3''\<close>] c c'
  have 3: \<open>parse_log_line (str ''a b c [-] "r" 1 2 "f" "u" 3'') = ([], None)\<close> by blast
  from parse_log_line_diagnostic_only_on_extraction
         [of \<open>str ''a b c [x] "r" '' @ replicate 4301 (of_char CHR ''1'') @ str '' 2 "f" "u" 3''\<close>] d d'
  have 4: \<open>fst (parse_log_line
               (str ''a b c [x] "r" '' @ replicate 4301 (of_char CHR ''1'') @ str '' 2 "f" "u" 3'')) \<noteq> []\<close>
    by blast
  with parse_log_line_diagnostic_only_on_extraction
         [of \<open>str ''a b c [x] "r" '' @ replicate 4301 (of_char CHR ''1'') @ str '' 2 "f" "u" 3''\<close>] d
  have 5: \<open>py_int (replicate 4301 49) = Inl ValueError\<close>
    by simp
  from a b c c' d d' 1 2 3 4 5 show ?thesis
    by (simp add: max_str_digits_def)
qed

text \<open>
  C10, as stated: the status group admits only decimal digits, so the conversion always
  succeeds. It fails: on a run of more than 4300 decimal digits \<open>int()\<close> raises
  \<open>ValueError\<close>. In the line below the status group of the match is 4301 times the
  digit \<open>1\<close>, a run of decimal digits; its conversion raises and no entry is returned.
\<close>

theorem parse_log_line_status_conversion_counterexample:
  \<open>re_search log_pattern []
     (strip (str ''a b c [y] "r" '' @ replicate 4301 (of_char CHR ''1'') @ str '' 2 "f" "u" 3'')) =
     Some ([], [str ''a'', str ''b'', str ''c'', str ''y'', str ''r'',
                replicate 4301 (of_char CHR ''1''), str ''2'', str ''f'', str ''u'', str ''3''], []) \<and>
   number (replicate 4301 (of_char CHR ''1'')) \<and>
   py_int (replicate 4301 (of_char CHR ''1'')) = Inl ValueError \<and>
   snd (parse_log_line (str ''a b c [y] "r" '' @ replicate 4301 (of_char CHR ''1'') @ str '' 2 "f" "u" 3''))
     = None\<close>
proof -
  have 1: \<open>re_search log_pattern []
     (strip (str ''a b c [y] "r" '' @ replicate 4301 (of_char CHR ''1'') @ str '' 2 "f" "u" 3'')) =
     Some ([], [str ''a'', str ''b'', str ''c'', str ''y'', str ''r'',
                replicate 4301 49, str ''2'', str ''f'', str ''u'', str ''3''], [])\<close>
    by (rule plain_line_search) (simp_all add: groups_eval)
  have 2: "number (replicate 4301 49)"
    by (simp add: number_def list_all_replicate isdecimal_numeral decimal_ranges_def)
  from py_int_number [OF 2] have 3: "py_int (replicate 4301 49) = Inl ValueError"
    by (simp add: max_str_digits_def)
  from 1 2 3 show ?thesis
    by (simp add: parse_log_line_eq max_str_digits_def)
qed

text \<open>
  C10, amended: the status of every entry that \<open>parse_log_line\<close> returns is the integer
  that the status group of the match writes: the group is a run of decimal digits, not
  empty and of at most 4300 digits (on a longer one \<open>int()\<close> raises and no entry is
  returned), so \<open>int()\<close> does not raise on it and the integer is not negative.
\<close>

theorem parse_log_line_status_nonnegative:
  assumes "snd (parse_log_line line) = Some e"
  shows "0 \<le> status e \<and>
         (\<exists>pre gs rest. re_search log_pattern [] (strip line) = Some (pre, gs, rest) \<and>
            number (gs ! 5) \<and> length (gs ! 5) \<le> max_str_digits \<and>
            py_int (gs ! 5) = Inr (status e))"
proof (cases "re_search log_pattern [] (strip line)")
  case None
  with assms show ?thesis by (simp add: parse_log_line_eq)
next
  case (Some m)
  obtain pre gs rest where m: "m = (pre, gs, rest)" by (cases m)
  from re_split_log_Some(2) [OF Some [unfolded m]] have n: "number (gs ! 5)"
    by (simp add: log_groups_def)
  from assms Some m have "status e = int (decimal_value (gs ! 5)) \<and> length (gs ! 5) \<le> max_str_digits"
    by (auto simp: parse_log_line_eq split: if_splits)
  with Some m n py_int_number [OF n] show ?thesis by simp
qed

theorem parse_log_line_status_nonnegative_witness:
  \<open>snd (parse_log_line (str ''a b c [t] "r" 404 2 "f" "u" 3'')) =
     Some \<lparr>ip = str ''a'', timestamp = str ''t'', request = str ''r'', status = 404,
            user_agent = str ''u''\<rparr> \<and>
   (0::int) \<le> 404 \<and> length (str ''404'') \<le> max_str_digits \<and> py_int (str ''404'') = Inr 404\<close>
proof -
  have 1: \<open>re_search log_pattern [] (strip (str ''a b c [t] "r" 404 2 "f" "u" 3'')) =
     Some ([], [str ''a'', str ''b'', str ''c'', str ''t'', str ''r'', str ''404'', str ''2'',
                str ''f'', str ''u'', str ''3''], [])\<close>
    by (rule plain_line_search) (simp_all add: groups_eval)
  have 2: \<open>int (decimal_value (str ''404'')) = 404\<close>
    by (simp add: eval)
  from 1 2 have a: \<open>snd (parse_log_line (str ''a b c [t] "r" 404 2 "f" "u" 3'')) =
     Some \<lparr>ip = str ''a'', timestamp = str ''t'', request = str ''r'', status = 404,
            user_agent = str ''u''\<rparr>\<close>
    by (simp add: parse_log_line_eq max_str_digits_def) (simp add: str_def)
  from parse_log_line_status_nonnegative [OF a] 1 have \<open>py_int (str ''404'') = Inr 404\<close>
    by simp
  with a show ?thesis by (simp add: str_def max_str_digits_def)
qed




section \<open>The frequency tables\<close>








section \<open>The ranking of addresses\<close>














end
